theory Spec2Isabelle
  imports Complex_Main "HOL-Library.AList"
begin

section \<open>Data model of \<open>get_enum_data.py\<close>\<close>

text \<open>
  \<^verbatim>\<open>EnumToTable\<close> and \<^verbatim>\<open>DeclaredEnumValues\<close> are the two dataclasses of the module.
  \<^verbatim>\<open>EnumNamesToValues = Dict[str, Tuple[str]]\<close> is a Python dict: it is represented by an
  association list that is only ever extended with \<open>AList.update\<close>, which replaces the
  value of a key that is already present (keeping its place) and appends a new key at the
  end, as a Python dict does. Looking a key up is \<open>map_of\<close>.
\<close>

record EnumToTable =
  table_name :: string
  column_name :: string
  enum_name :: string

type_synonym EnumNamesToValues = "(string \<times> string list) list"

record DeclaredEnumValues =
  enum_definitions :: EnumNamesToValues
  table_definitions :: "EnumToTable list option"

text \<open>
  A dict comprehension \<^verbatim>\<open>{k: v for ...}\<close> stores the pairs one after the other: a later
  pair with the same key overwrites the earlier value.
\<close>

definition dict_comprehension :: "('k \<times> 'v) list \<Rightarrow> ('k \<times> 'v) list" where
  "dict_comprehension kvs = fold (\<lambda>(k, v) d. AList.update k v d) kvs []"

section \<open>The live-schema reader: \<open>get_defined_enums\<close>\<close>

text \<open>
  The function sends one catalog query and builds a dict from its rows. The query reads
  three catalogs of PostgreSQL; each is a list of rows in the order in which a scan of the
  catalog yields them. \<open>format_type\<close> is the server's \<^verbatim>\<open>pg_catalog.format_type(oid, NULL)\<close>.
\<close>

record pg_type =
  typ_oid :: nat
  typnamespace :: nat
  typtype :: char

record pg_namespace =
  nsp_oid :: nat
  nspname :: string

record pg_enum =
  enumtypid :: nat
  enumsortorder :: rat
  enumlabel :: string

record connection =
  pg_type_rows :: "pg_type list"
  pg_namespace_rows :: "pg_namespace list"
  pg_enum_rows :: "pg_enum list"
  format_type :: "nat \<Rightarrow> string"

text \<open>
  \<^verbatim>\<open>ARRAY(SELECT enumlabel FROM pg_catalog.pg_enum WHERE enumtypid = t.oid)\<close>: the labels of
  the rows of \<^verbatim>\<open>pg_enum\<close> that belong to the type, in the order the rows come; the
  subquery has no \<^verbatim>\<open>ORDER BY\<close>.
\<close>

definition enum_labels :: "connection \<Rightarrow> nat \<Rightarrow> string list" where
  "enum_labels conn oid = map enumlabel (filter (\<lambda>e. enumtypid e = oid) (pg_enum_rows conn))"

text \<open>
  \<^verbatim>\<open>FROM pg_type t LEFT JOIN pg_namespace n ON n.oid = t.typnamespace\<close>: every type row is
  paired with each namespace row of its namespace, or with NULL (\<open>None\<close>) when there is none.
\<close>

definition left_join :: "connection \<Rightarrow> (pg_type \<times> pg_namespace option) list" where
  "left_join conn =
     concat (map (\<lambda>t.
       (let ns = filter (\<lambda>n. nsp_oid n = typnamespace t) (pg_namespace_rows conn)
        in if ns = [] then [(t, None)] else map (\<lambda>n. (t, Some n)) ns))
       (pg_type_rows conn))"

text \<open>\<^verbatim>\<open>WHERE t.typtype = 'e' AND n.nspname = :schema\<close>; a NULL \<^verbatim>\<open>nspname\<close> is not equal to anything.\<close>

definition where_clause :: "string \<Rightarrow> pg_type \<times> pg_namespace option \<Rightarrow> bool" where
  "where_clause schema r =
     (typtype (fst r) = CHR ''e'' \<and>
      (case snd r of None \<Rightarrow> False | Some n \<Rightarrow> nspname n = schema))"

text \<open>The rows \<^verbatim>\<open>conn.execute(sqlalchemy.text(sql), dict(schema=schema))\<close> returns.\<close>

definition execute_sql :: "connection \<Rightarrow> string \<Rightarrow> (string \<times> string list) list" where
  "execute_sql conn schema =
     map (\<lambda>r. (format_type conn (typ_oid (fst r)), enum_labels conn (typ_oid (fst r))))
       (filter (where_clause schema) (left_join conn))"

text \<open>\<^verbatim>\<open>return {r[0]: tuple(r[1]) for r in conn.execute(...)}\<close>\<close>

definition get_defined_enums :: "connection \<Rightarrow> string \<Rightarrow> EnumNamesToValues" where
  "get_defined_enums conn schema = dict_comprehension (execute_sql conn schema)"

text \<open>
  The declared ordinal order of an enumerated type is the order of its labels by
  \<^verbatim>\<open>enumsortorder\<close>, the column PostgreSQL compares enum values by.
\<close>

definition ordinal_labels :: "connection \<Rightarrow> nat \<Rightarrow> string list" where
  "ordinal_labels conn oid =
     map enumlabel (sort_key enumsortorder (filter (\<lambda>e. enumtypid e = oid) (pg_enum_rows conn)))"

section \<open>The declared-schema reader\<close>

text \<open>
  A column type of SQLAlchemy is an object of a library this module does not define. The
  record holds what the module reads from it, one field per probe:
  \<^item> \<open>schema_attr\<close>: \<open>None\<close> when \<^verbatim>\<open>hasattr(type, 'schema')\<close> is false, else \<open>Some\<close> of the
    attribute's value, itself \<^verbatim>\<open>None\<close> or a string;
  \<^item> \<open>is_enum\<close>: \<^verbatim>\<open>isinstance(type, sqlalchemy.Enum)\<close>;
  \<^item> \<open>impl_is_enum\<close>: \<^verbatim>\<open>isinstance(getattr(type, 'impl', None), sqlalchemy.Enum)\<close>;
  \<^item> \<open>is_type_decorator\<close>: \<^verbatim>\<open>isinstance(type, sqlalchemy.types.TypeDecorator)\<close>;
  \<^item> \<open>type_name\<close> and \<open>enums\<close>: the attributes \<^verbatim>\<open>name\<close> and \<^verbatim>\<open>enums\<close>;
  \<^item> \<open>impl_result_processor dialect\<close>: the function
    \<^verbatim>\<open>type.impl.result_processor(dialect, type)\<close> returns;
  \<^item> \<open>process_bind_param\<close>: the method of that name.
  \<open>'o\<close> is the type of the Python-side values a decorator works on, \<open>'d\<close> the dialect.
\<close>

record ('o, 'd) sa_type =
  schema_attr :: "string option option"
  is_enum :: bool
  impl_is_enum :: bool
  is_type_decorator :: bool
  type_name :: string
  enums :: "string list"
  impl_result_processor :: "'d \<Rightarrow> string \<Rightarrow> 'o"
  process_bind_param :: "'o \<Rightarrow> 'd \<Rightarrow> string"

record ('o, 'd) sa_column =
  col_name :: string
  col_type :: "('o, 'd) sa_type"

record ('o, 'd) sa_table =
  tbl_name :: string
  tbl_columns :: "('o, 'd) sa_column list"

text \<open>\<^verbatim>\<open>metadata.tables.values()\<close>: the tables, in the order of the dict.\<close>

type_synonym ('o, 'd) metadata = "('o, 'd) sa_table list"

text \<open>
  \<^verbatim>\<open>get_enum_values\<close>: a \<^verbatim>\<open>TypeDecorator\<close> sends every declared value through
  \<^verbatim>\<open>process_bind_param(impl.result_processor(dialect, enum_type)(value), dialect)\<close>; any
  other type keeps its values.
\<close>

definition value_processor :: "('o, 'd) sa_type \<Rightarrow> 'd \<Rightarrow> string \<Rightarrow> string" where
  "value_processor enum_type dialect v =
     (if is_type_decorator enum_type
      then process_bind_param enum_type (impl_result_processor enum_type dialect v) dialect
      else v)"

definition get_enum_values :: "('o, 'd) sa_type \<Rightarrow> 'd \<Rightarrow> string list" where
  "get_enum_values enum_type dialect = map (value_processor enum_type dialect) (enums enum_type)"

text \<open>
  \<^verbatim>\<open>column.type.schema or default_schema\<close>: Python's \<^verbatim>\<open>or\<close> takes the right operand when the
  left one is falsy, which \<^verbatim>\<open>None\<close> and the empty string both are.
\<close>

definition schema_or_default :: "string option \<Rightarrow> string \<Rightarrow> string" where
  "schema_or_default s default_schema =
     (case s of None \<Rightarrow> default_schema | Some x \<Rightarrow> if x = [] then default_schema else x)"

text \<open>
  The state of the two loops: the set \<^verbatim>\<open>types\<close> and the list \<^verbatim>\<open>table_definitions\<close>. The set
  is the list of its members without repetition; \<^verbatim>\<open>types.add\<close> is \<open>List.insert\<close>. Two type
  objects that agree on every field are one member here and two members of the Python
  set; they have the same name and the same values, so the dict built from the set is the
  same.
\<close>

type_synonym ('o, 'd) scan_state = "('o, 'd) sa_type list \<times> EnumToTable list"

text \<open>The body of the inner loop, for one column of the table named \<open>tname\<close>.\<close>

definition scan_column ::
  "string \<Rightarrow> string \<Rightarrow> string \<Rightarrow> ('o, 'd) sa_column \<Rightarrow> ('o, 'd) scan_state \<Rightarrow> ('o, 'd) scan_state"
where
  "scan_column schema default_schema tname c st =
     (case schema_attr (col_type c) of
        None \<Rightarrow> st
      | Some s \<Rightarrow>
          if schema \<noteq> schema_or_default s default_schema then st
          else if is_enum (col_type c) \<or> impl_is_enum (col_type c)
          then (List.insert (col_type c) (fst st),
                snd st @ [\<lparr>table_name = tname, column_name = col_name c,
                           enum_name = type_name (col_type c)\<rparr>])
          else st)"

definition scan_table ::
  "string \<Rightarrow> string \<Rightarrow> ('o, 'd) sa_table \<Rightarrow> ('o, 'd) scan_state \<Rightarrow> ('o, 'd) scan_state"
where
  "scan_table schema default_schema t st =
     fold (scan_column schema default_schema (tbl_name t)) (tbl_columns t) st"

definition scan_metadata ::
  "string \<Rightarrow> string \<Rightarrow> ('o, 'd) metadata \<Rightarrow> ('o, 'd) scan_state"
where
  "scan_metadata schema default_schema md = fold (scan_table schema default_schema) md ([], [])"

text \<open>
  \<^verbatim>\<open>for t in types\<close> visits the members of a set in the order of the hash table, which is
  neither the order of insertion nor fixed by the program: SQLAlchemy types hash by
  identity. The order is a parameter of the model: \<open>slot\<close> ranks the type objects, and the
  set is visited by rising rank. Every order of visit is the order of some \<open>slot\<close>.
\<close>

definition set_iteration :: "(('o, 'd) sa_type \<Rightarrow> nat) \<Rightarrow> ('o, 'd) sa_type list \<Rightarrow> ('o, 'd) sa_type list" where
  "set_iteration slot types = sort_key slot types"

definition get_declared_enums ::
  "(('o, 'd) sa_type \<Rightarrow> nat) \<Rightarrow> ('o, 'd) metadata \<Rightarrow> string \<Rightarrow> string \<Rightarrow> 'd \<Rightarrow> DeclaredEnumValues"
where
  "get_declared_enums slot md schema default_schema dialect =
     (let st = scan_metadata schema default_schema md
      in \<lparr>enum_definitions =
            dict_comprehension
              (map (\<lambda>t. (type_name t, get_enum_values t dialect)) (set_iteration slot (fst st))),
          table_definitions = Some (snd st)\<rparr>)"

text \<open>
  Three notions the statements below use. \<open>enum_column\<close> is the test a column passes to
  be recorded (the three guards of the loop body), \<open>enum_types\<close> the types of the columns
  that pass it, \<open>enum_usages\<close> the \<^verbatim>\<open>EnumToTable\<close> records of those columns.
\<close>

definition enum_column :: "string \<Rightarrow> string \<Rightarrow> ('o, 'd) sa_column \<Rightarrow> bool" where
  "enum_column schema default_schema c =
     (case schema_attr (col_type c) of
        None \<Rightarrow> False
      | Some s \<Rightarrow> schema = schema_or_default s default_schema \<and>
                 (is_enum (col_type c) \<or> impl_is_enum (col_type c)))"

definition usage :: "('o, 'd) sa_table \<Rightarrow> ('o, 'd) sa_column \<Rightarrow> EnumToTable" where
  "usage t c =
     \<lparr>table_name = tbl_name t, column_name = col_name c, enum_name = type_name (col_type c)\<rparr>"

definition enum_usages :: "string \<Rightarrow> string \<Rightarrow> ('o, 'd) metadata \<Rightarrow> EnumToTable list" where
  "enum_usages schema default_schema md =
     concat (map (\<lambda>t. map (usage t) (filter (enum_column schema default_schema) (tbl_columns t))) md)"

definition enum_types :: "string \<Rightarrow> string \<Rightarrow> ('o, 'd) metadata \<Rightarrow> ('o, 'd) sa_type set" where
  "enum_types schema default_schema md =
     {col_type c |t c. t \<in> set md \<and> c \<in> set (tbl_columns t) \<and> enum_column schema default_schema c}"

text \<open>
  The members of the set \<^verbatim>\<open>types\<close> in the order in which \<^verbatim>\<open>for t in types\<close> visits them.
\<close>

definition visited_types ::
  "(('o, 'd) sa_type \<Rightarrow> nat) \<Rightarrow> ('o, 'd) metadata \<Rightarrow> string \<Rightarrow> string \<Rightarrow> ('o, 'd) sa_type list"
where
  "visited_types slot md schema default_schema =
     set_iteration slot (fst (scan_metadata schema default_schema md))"

text \<open>The metadata without the columns whose type has no attribute \<^verbatim>\<open>schema\<close>.\<close>

definition drop_schemaless :: "('o, 'd) sa_table \<Rightarrow> ('o, 'd) sa_table" where
  "drop_schemaless t =
     t\<lparr>tbl_columns := filter (\<lambda>c. schema_attr (col_type c) \<noteq> None) (tbl_columns t)\<rparr>"

text \<open>
  The resident schema as the specification words it: the explicit schema attribute, or
  the default schema when that attribute is \<^verbatim>\<open>None\<close>. It differs from \<open>schema_or_default\<close>,
  which is what the code computes, on the empty string.
\<close>

definition claimed_resident_schema :: "string option \<Rightarrow> string \<Rightarrow> string" where
  "claimed_resident_schema s default_schema = (case s of None \<Rightarrow> default_schema | Some x \<Rightarrow> x)"

section \<open>The reconciliation engine\<close>

text \<open>
  Modelled from the spec: the reconciliation engine (section 4.3) and its operations
  (section 3). The comparators and the operation classes (\<^verbatim>\<open>CreateEnumOp\<close>, \<^verbatim>\<open>DropEnumOp\<close>)
  that \<^verbatim>\<open>tests/test_enum_creation.py\<close> imports from the package are not among the source
  files, so the definitions of this section follow the words of the specification.

  An operation is "a tagged variant over {CreateEnum, DropEnum, AlterEnumAddValue,
  AlterEnumRenameValue, AlterEnumDropValue} each carrying (enum_name, schema_name,
  value_list_before_and_after_as_needed)". A value is added "positioned relative to its
  neighbor in the target ordering" (\<^verbatim>\<open>AlterEnumAddValue("status","c", after="b")\<close>).
\<close>

datatype position = After string | Before string | Unpositioned

datatype operation =
    CreateEnum string string "string list"
  | DropEnum string string "string list"
  | AlterEnumAddValue string string string position
  | AlterEnumRenameValue string string string string
  | AlterEnumDropValue string string string

text \<open>
  Modelled from the spec: the column operations are "supplied by the surrounding
  migration-diff pipeline (an external collaborator)". The engine reads of one only its
  kind and the enums its column references.
\<close>

datatype column_kind = AddColumn | AlterColumn | RemoveColumn

record column_operation =
  kind :: column_kind
  on_table :: string
  on_column :: string
  references :: "string list"

datatype migration_step = EnumOp operation | ColumnOp column_operation

text \<open>
  Modelled from the spec: the steps of a reordering. For value sets that are "identical
  but order differs" the specification asks for "one add/drop/rename-equivalent step per
  displaced value, or a documented no-op" and calls the path an open question
  (section 9). The steps are therefore a parameter of the engine, a function from the
  live and the declared tuple to steps on the values of that one enum.
\<close>

datatype value_step = AddValue string position | RenameValue string string | DropValue string

fun alter_op :: "string \<Rightarrow> string \<Rightarrow> value_step \<Rightarrow> operation" where
  "alter_op n schema (AddValue v p) = AlterEnumAddValue n schema v p"
| "alter_op n schema (RenameValue v w) = AlterEnumRenameValue n schema v w"
| "alter_op n schema (DropValue v) = AlterEnumDropValue n schema v"

text \<open>
  Modelled from the spec: \<open>enum_definitions\<close> is a mapping, so a name has one definition
  on a side. The engine visits every name of a mapping once and reads its tuple with
  \<open>map_of\<close>.
\<close>

definition enum_names :: "EnumNamesToValues \<Rightarrow> string list" where
  "enum_names d = remdups (map fst d)"

text \<open>Modelled from the spec: "Enums present only in declared \<rightarrow> emit CreateEnum."\<close>

definition create_new_enums :: "string \<Rightarrow> EnumNamesToValues \<Rightarrow> EnumNamesToValues \<Rightarrow> operation list" where
  "create_new_enums schema live declared =
     concat (map (\<lambda>n.
       (case (map_of live n, map_of declared n) of
          (None, Some vs) \<Rightarrow> [CreateEnum n schema vs]
        | _ \<Rightarrow> []))
       (enum_names declared))"

text \<open>Modelled from the spec: "Enums present only in live \<rightarrow> emit DropEnum."\<close>

definition drop_unused_enums :: "string \<Rightarrow> EnumNamesToValues \<Rightarrow> EnumNamesToValues \<Rightarrow> operation list" where
  "drop_unused_enums schema live declared =
     concat (map (\<lambda>n.
       (case (map_of live n, map_of declared n) of
          (Some vs, None) \<Rightarrow> [DropEnum n schema vs]
        | _ \<Rightarrow> []))
       (enum_names live))"

text \<open>
  Modelled from the spec: "emit AlterEnumAddValue per new value, each positioned relative
  to its neighbor in the target ordering": after the value before it in the declared
  tuple, or before the one that follows when it is the first. \<open>prev\<close> is the value before
  the rest \<open>vs\<close> of the declared tuple.
\<close>

fun add_new_values ::
  "string \<Rightarrow> string \<Rightarrow> string list \<Rightarrow> string option \<Rightarrow> string list \<Rightarrow> operation list"
where
  "add_new_values n schema lv prev [] = []"
| "add_new_values n schema lv prev (v # vs) =
     (if v \<in> set lv then []
      else [AlterEnumAddValue n schema v
              (case prev of
                 Some p \<Rightarrow> After p
               | None \<Rightarrow> (case vs of [] \<Rightarrow> Unpositioned | w # _ \<Rightarrow> Before w))])
     @ add_new_values n schema lv (Some v) vs"

text \<open>
  Modelled from the spec: the value-level diff of an enum present on both sides, with
  live tuple \<open>lv\<close> and declared tuple \<open>dv\<close>. Equal tuples need nothing. Equal value sets
  are a reordering. A declared set that is a superset of the live one gets one
  \<^verbatim>\<open>AlterEnumAddValue\<close> per new value. Otherwise a live value is removed (the declared set
  is a subset, or the sets "differ in both directions"), and the enum is recreated:
  "emit DropEnum + CreateEnum for that enum". The opt-in mode that "may skip value
  removal" is not part of the model.
\<close>

definition value_level_diff ::
  "(string list \<Rightarrow> string list \<Rightarrow> value_step list) \<Rightarrow> string \<Rightarrow> string \<Rightarrow>
     string list \<Rightarrow> string list \<Rightarrow> operation list"
where
  "value_level_diff reorder n schema lv dv =
     (if lv = dv then []
      else if set lv = set dv then map (alter_op n schema) (reorder lv dv)
      else if set lv \<subseteq> set dv then add_new_values n schema lv None dv
      else [DropEnum n schema lv, CreateEnum n schema dv])"

text \<open>Modelled from the spec: "Enums in both \<rightarrow> proceed to value-level diff."\<close>

definition sync_changed_enums ::
  "(string list \<Rightarrow> string list \<Rightarrow> value_step list) \<Rightarrow> string \<Rightarrow>
     EnumNamesToValues \<Rightarrow> EnumNamesToValues \<Rightarrow> operation list"
where
  "sync_changed_enums reorder schema live declared =
     concat (map (\<lambda>n.
       (case (map_of live n, map_of declared n) of
          (Some lv, Some dv) \<Rightarrow> value_level_diff reorder n schema lv dv
        | _ \<Rightarrow> []))
       (enum_names declared))"

text \<open>
  Modelled from the spec: the engine is "a pure function of (live, declared) \<rightarrow>
  operation sequence" that positions its operations "by inserting creates before and
  drops after the column-operation batch". \<open>batch\<close> is the batch of column operations of
  the surrounding pipeline. The specification does not place the value-level operations
  relative to the batch; the model puts them after the creates.
\<close>

definition diff ::
  "(string list \<Rightarrow> string list \<Rightarrow> value_step list) \<Rightarrow> string \<Rightarrow>
     DeclaredEnumValues \<Rightarrow> DeclaredEnumValues \<Rightarrow> column_operation list \<Rightarrow> migration_step list"
where
  "diff reorder schema live declared batch =
     map EnumOp (create_new_enums schema (enum_definitions live) (enum_definitions declared))
     @ map EnumOp (sync_changed_enums reorder schema (enum_definitions live) (enum_definitions declared))
     @ map ColumnOp batch
     @ map EnumOp (drop_unused_enums schema (enum_definitions live) (enum_definitions declared))"

text \<open>
  What a step of the output is, for the statements about the sequence: the enum an
  operation is about, and the tests for a create, a drop and a value drop of the enum
  \<open>n\<close> and for a column operation that references it.
\<close>

fun op_enum :: "operation \<Rightarrow> string" where
  "op_enum (CreateEnum n schema vs) = n"
| "op_enum (DropEnum n schema vs) = n"
| "op_enum (AlterEnumAddValue n schema v p) = n"
| "op_enum (AlterEnumRenameValue n schema v w) = n"
| "op_enum (AlterEnumDropValue n schema v) = n"

fun is_create :: "string \<Rightarrow> migration_step \<Rightarrow> bool" where
  "is_create n (EnumOp (CreateEnum m schema vs)) = (m = n)"
| "is_create n x = False"

fun is_drop :: "string \<Rightarrow> migration_step \<Rightarrow> bool" where
  "is_drop n (EnumOp (DropEnum m schema vs)) = (m = n)"
| "is_drop n x = False"

fun is_value_drop :: "string \<Rightarrow> migration_step \<Rightarrow> bool" where
  "is_value_drop n (EnumOp (AlterEnumDropValue m schema v)) = (m = n)"
| "is_value_drop n x = False"

fun column_references :: "string \<Rightarrow> migration_step \<Rightarrow> bool" where
  "column_references n (ColumnOp c) = (n \<in> set (references c))"
| "column_references n x = False"

text \<open>The reordering that is the "documented no-op".\<close>

definition no_reorder :: "string list \<Rightarrow> string list \<Rightarrow> value_step list" where
  "no_reorder lv dv = []"

section \<open>Example inputs\<close>

text \<open>
  A plain \<^verbatim>\<open>sqlalchemy.Enum\<close>, a \<^verbatim>\<open>TypeDecorator\<close> over one whose \<^verbatim>\<open>process_bind_param\<close> writes the
  value with a suffix, and a type with no attribute \<^verbatim>\<open>schema\<close> (\<^verbatim>\<open>Integer\<close>).
\<close>

definition plain_enum :: "string option \<Rightarrow> string \<Rightarrow> string list \<Rightarrow> (string, unit) sa_type" where
  "plain_enum s n vs =
     \<lparr>schema_attr = Some s, is_enum = True, impl_is_enum = False, is_type_decorator = False,
      type_name = n, enums = vs,
      impl_result_processor = (\<lambda>d v. v), process_bind_param = (\<lambda>x d. x)\<rparr>"

definition decorated_enum :: "string option \<Rightarrow> string \<Rightarrow> string list \<Rightarrow> (string, unit) sa_type" where
  "decorated_enum s n vs =
     \<lparr>schema_attr = Some s, is_enum = False, impl_is_enum = True, is_type_decorator = True,
      type_name = n, enums = vs,
      impl_result_processor = (\<lambda>d v. v), process_bind_param = (\<lambda>x d. x @ ''_db'')\<rparr>"

definition integer_type :: "(string, unit) sa_type" where
  "integer_type =
     \<lparr>schema_attr = None, is_enum = False, impl_is_enum = False, is_type_decorator = False,
      type_name = [], enums = [],
      impl_result_processor = (\<lambda>d v. v), process_bind_param = (\<lambda>x d. x)\<rparr>"

text \<open>Two columns whose types are both named \<^verbatim>\<open>user_status\<close> and list different values.\<close>

definition conflicting_metadata :: "(string, unit) metadata" where
  "conflicting_metadata =
     [\<lparr>tbl_name = ''users'', tbl_columns =
        [\<lparr>col_name = ''id'', col_type = integer_type\<rparr>,
         \<lparr>col_name = ''status'',
          col_type = plain_enum None ''user_status'' [''active'', ''passive'']\<rparr>,
         \<lparr>col_name = ''old_status'',
          col_type = plain_enum None ''user_status'' [''active'']\<rparr>]\<rparr>]"

text \<open>An order of visit of the set of types: by the number of values.\<close>

definition by_length :: "(string, unit) sa_type \<Rightarrow> nat" where
  "by_length t = length (enums t)"

text \<open>A column whose type was declared with the empty string as its schema.\<close>

definition empty_schema_metadata :: "(string, unit) metadata" where
  "empty_schema_metadata =
     [\<lparr>tbl_name = ''users'', tbl_columns =
        [\<lparr>col_name = ''status'',
          col_type = plain_enum (Some []) ''user_status'' [''active'', ''passive'']\<rparr>]\<rparr>]"

text \<open>
  The catalog after \<^verbatim>\<open>CREATE TYPE status AS ENUM ('a', 'c')\<close> and
  \<^verbatim>\<open>ALTER TYPE status ADD VALUE 'b' BEFORE 'c'\<close>: the new row of \<^verbatim>\<open>pg_enum\<close> is stored after the
  other two, with a sort order between theirs.
\<close>

definition altered_catalog :: connection where
  "altered_catalog =
     \<lparr>pg_type_rows = [\<lparr>typ_oid = 1, typnamespace = 10, typtype = CHR ''e''\<rparr>],
      pg_namespace_rows = [\<lparr>nsp_oid = 10, nspname = ''public''\<rparr>],
      pg_enum_rows =
        [\<lparr>enumtypid = 1, enumsortorder = 1, enumlabel = ''a''\<rparr>,
         \<lparr>enumtypid = 1, enumsortorder = 2, enumlabel = ''c''\<rparr>,
         \<lparr>enumtypid = 1, enumsortorder = 3 / 2, enumlabel = ''b''\<rparr>],
      format_type = (\<lambda>oid. ''status'')\<rparr>"

text \<open>The snapshots and the column operations of the scenarios of section 8.\<close>

definition snapshot :: "EnumNamesToValues \<Rightarrow> DeclaredEnumValues" where
  "snapshot d = \<lparr>enum_definitions = d, table_definitions = None\<rparr>"

definition add_status_column :: column_operation where
  "add_status_column =
     \<lparr>kind = AddColumn, on_table = ''users'', on_column = ''status'',
      references = [''user_status'']\<rparr>"

definition remove_status_column :: column_operation where
  "remove_status_column =
     \<lparr>kind = RemoveColumn, on_table = ''users'', on_column = ''status'',
      references = [''user_status'']\<rparr>"

section \<open>Facts about dicts and about the scan\<close>



lemma fold_update_keys:
  "fst ` set (fold (\<lambda>(k, v) d. AList.update k v d) kvs d) = fst ` set kvs \<union> fst ` set d"
proof (induction kvs arbitrary: d)
  case Nil
  then show ?case by simp
next
  case (Cons p kvs)
  obtain k v where p: "p = (k, v)" by (cases p)
  have "fst ` set (AList.update k v d) = {k} \<union> fst ` set d" by (rule dom_update)
  with Cons p show ?case by auto
qed

lemma dict_comprehension_keys: "fst ` set (dict_comprehension kvs) = fst ` set kvs"
  by (simp add: dict_comprehension_def fold_update_keys)

lemma fold_update_distinct:
  "distinct (map fst d) \<Longrightarrow> distinct (map fst (fold (\<lambda>(k, v) d. AList.update k v d) kvs d))"
  by (induction kvs arbitrary: d) (auto simp: distinct_update)

lemma dict_comprehension_distinct: "distinct (map fst (dict_comprehension kvs))"
  by (simp add: dict_comprehension_def fold_update_distinct)

lemma fold_update_map_of:
  "map_of (fold (\<lambda>(k, v) d. AList.update k v d) kvs d) = map_of d ++ map_of (rev kvs)"
  by (induction kvs arbitrary: d) (auto simp: update_conv' map_add_def fun_eq_iff split: option.splits)

lemma dict_comprehension_map_of: "map_of (dict_comprehension kvs) = map_of (rev kvs)"
  by (simp add: dict_comprehension_def fold_update_map_of)

lemma dict_comprehension_value:
  "map_of (dict_comprehension kvs) k = Some v \<Longrightarrow> (k, v) \<in> set kvs"
  by (simp add: dict_comprehension_map_of) (metis map_of_SomeD set_rev)


lemma scan_column_cases:
  "scan_column schema default_schema tname c st =
     (if enum_column schema default_schema c
      then (List.insert (col_type c) (fst st),
            snd st @ [\<lparr>table_name = tname, column_name = col_name c, enum_name = type_name (col_type c)\<rparr>])
      else st)"
  by (simp add: scan_column_def enum_column_def split: option.splits)

lemma fold_scan_column_snd:
  "snd (fold (scan_column schema default_schema tname) cs st) =
     snd st @ map (\<lambda>c. \<lparr>table_name = tname, column_name = col_name c, enum_name = type_name (col_type c)\<rparr>)
       (filter (enum_column schema default_schema) cs)"
  by (induction cs arbitrary: st) (simp_all add: scan_column_cases)

lemma fold_scan_column_fst:
  "set (fst (fold (scan_column schema default_schema tname) cs st)) =
     set (fst st) \<union> col_type ` {c \<in> set cs. enum_column schema default_schema c}"
  by (induction cs arbitrary: st) (auto simp add: scan_column_cases)

lemma scan_table_snd:
  "snd (scan_table schema default_schema t st) =
     snd st @ map (usage t) (filter (enum_column schema default_schema) (tbl_columns t))"
  by (simp add: scan_table_def fold_scan_column_snd usage_def)

lemma scan_table_fst:
  "set (fst (scan_table schema default_schema t st)) =
     set (fst st) \<union> col_type ` {c \<in> set (tbl_columns t). enum_column schema default_schema c}"
  by (simp add: scan_table_def fold_scan_column_fst)

lemma fold_scan_table_snd:
  "snd (fold (scan_table schema default_schema) md st) = snd st @ enum_usages schema default_schema md"
  by (induction md arbitrary: st) (simp_all add: scan_table_snd enum_usages_def)

lemma fold_scan_table_fst:
  "set (fst (fold (scan_table schema default_schema) md st)) =
     set (fst st) \<union> enum_types schema default_schema md"
proof (induction md arbitrary: st)
  case Nil
  then show ?case by (simp add: enum_types_def)
next
  case (Cons t md)
  have "enum_types schema default_schema (t # md) =
          col_type ` {c \<in> set (tbl_columns t). enum_column schema default_schema c}
            \<union> enum_types schema default_schema md"
    by (auto simp: enum_types_def)
  with Cons show ?case by (simp add: scan_table_fst Un_assoc)
qed

lemma scan_metadata_snd:
  "snd (scan_metadata schema default_schema md) = enum_usages schema default_schema md"
  by (simp add: scan_metadata_def fold_scan_table_snd)

lemma scan_metadata_fst:
  "set (fst (scan_metadata schema default_schema md)) = enum_types schema default_schema md"
  by (simp add: scan_metadata_def fold_scan_table_fst)

lemma enum_definitions_keys:
  "fst ` set (enum_definitions (get_declared_enums slot md schema default_schema dialect)) =
     type_name ` enum_types schema default_schema md"
  by (simp add: get_declared_enums_def Let_def dict_comprehension_keys set_iteration_def
      scan_metadata_fst image_image)

lemma table_definitions_eq:
  "table_definitions (get_declared_enums slot md schema default_schema dialect) =
     Some (enum_usages schema default_schema md)"
  by (simp add: get_declared_enums_def Let_def scan_metadata_snd)

lemma enum_definitions_value:
  assumes "map_of (enum_definitions (get_declared_enums slot md schema default_schema dialect)) n = Some vs"
  shows "\<exists>t \<in> enum_types schema default_schema md. type_name t = n \<and> get_enum_values t dialect = vs"
proof -
  from assms have "(n, vs) \<in> set (map (\<lambda>t. (type_name t, get_enum_values t dialect))
      (set_iteration slot (fst (scan_metadata schema default_schema md))))"
    by (auto simp: get_declared_enums_def Let_def dest: dict_comprehension_value)
  then show ?thesis
    by (auto simp: set_iteration_def scan_metadata_fst)
qed

lemma enum_definitions_distinct:
  "distinct (map fst (enum_definitions (get_declared_enums slot md schema default_schema dialect)))"
  by (simp add: get_declared_enums_def Let_def dict_comprehension_distinct)

lemma scan_column_schemaless:
  "schema_attr (col_type c) = None \<Longrightarrow> scan_column schema default_schema tname c st = st"
  by (simp add: scan_column_def)

lemma fold_scan_column_filter:
  "fold (scan_column schema default_schema tname)
     (filter (\<lambda>c. schema_attr (col_type c) \<noteq> None) cs) st =
   fold (scan_column schema default_schema tname) cs st"
  by (induction cs arbitrary: st) (simp_all add: scan_column_schemaless del: not_None_eq)

lemma scan_table_drop_schemaless:
  "scan_table schema default_schema (drop_schemaless t) = scan_table schema default_schema t"
  by (rule ext) (simp add: scan_table_def drop_schemaless_def fold_scan_column_filter del: not_None_eq)

lemma scan_metadata_drop_schemaless:
  "scan_metadata schema default_schema (map drop_schemaless md) = scan_metadata schema default_schema md"
  by (simp add: scan_metadata_def fold_map comp_def scan_table_drop_schemaless)

lemmas reader_defs = get_declared_enums_def scan_metadata_def scan_table_def scan_column_def
  schema_or_default_def set_iteration_def dict_comprehension_def get_enum_values_def
  value_processor_def

lemmas example_defs = plain_enum_def decorated_enum_def integer_type_def conflicting_metadata_def
  by_length_def empty_schema_metadata_def

lemma conflicting_metadata_result:
  "get_declared_enums by_length conflicting_metadata ''public'' ''public'' () =
   \<lparr>enum_definitions = [(''user_status'', [''active'', ''passive''])],
    table_definitions = Some
      [\<lparr>table_name = ''users'', column_name = ''status'', enum_name = ''user_status''\<rparr>,
       \<lparr>table_name = ''users'', column_name = ''old_status'', enum_name = ''user_status''\<rparr>]\<rparr>"
  by (simp add: reader_defs example_defs)

lemma conflicting_metadata_types:
  "enum_types ''public'' ''public'' conflicting_metadata =
     {plain_enum None ''user_status'' [''active'', ''passive''],
      plain_enum None ''user_status'' [''active'']}"
  unfolding scan_metadata_fst [symmetric]
  by (simp add: reader_defs example_defs insert_commute)

text \<open>
  The entry of a name in the returned dict is that of the type of that name visited last.
\<close>

lemma map_of_rev_last:
  "map_of (rev (map (\<lambda>t. (key t, val t)) xs)) k =
     (if filter (\<lambda>t. key t = k) xs = [] then None
      else Some (val (last (filter (\<lambda>t. key t = k) xs))))"
  by (induction xs rule: rev_induct) simp_all

lemma dict_comprehension_last:
  "map_of (dict_comprehension (map (\<lambda>t. (key t, val t)) xs)) k =
     (if filter (\<lambda>t. key t = k) xs = [] then None
      else Some (val (last (filter (\<lambda>t. key t = k) xs))))"
  by (simp only: dict_comprehension_map_of map_of_rev_last)

lemma enum_definitions_last_visited:
  "map_of (enum_definitions (get_declared_enums slot md schema default_schema dialect)) n =
     (if filter (\<lambda>t. type_name t = n) (visited_types slot md schema default_schema) = [] then None
      else Some (get_enum_values
        (last (filter (\<lambda>t. type_name t = n) (visited_types slot md schema default_schema))) dialect))"
  by (simp add: get_declared_enums_def Let_def visited_types_def dict_comprehension_last)

lemma set_visited_types:
  "set (visited_types slot md schema default_schema) = enum_types schema default_schema md"
  by (simp add: visited_types_def set_iteration_def scan_metadata_fst)

lemma one_entry:
  "distinct (map fst d) \<Longrightarrow> k \<in> fst ` set d \<Longrightarrow> length (filter (\<lambda>e. fst e = k) d) = 1"
proof (induction d)
  case Nil
  then show ?case by simp
next
  case (Cons e d)
  show ?case
  proof (cases "fst e = k")
    case True
    with Cons.prems(1) have "k \<notin> fst ` set d" by simp
    then have "\<forall>x \<in> set d. fst x \<noteq> k" by (metis imageI)
    then have "filter (\<lambda>e. fst e = k) d = []"
      by (simp add: filter_empty_conv)
    with True show ?thesis by simp
  next
    case False
    with Cons show ?thesis by auto
  qed
qed

lemma conflicting_metadata_visited:
  "visited_types by_length conflicting_metadata ''public'' ''public'' =
     [plain_enum None ''user_status'' [''active''],
      plain_enum None ''user_status'' [''active'', ''passive'']]"
  by (simp add: visited_types_def reader_defs example_defs)

text \<open>
  What the query returns: a row for every type of kind \<^verbatim>\<open>e\<close> in a namespace of the given
  name, keyed by its \<^verbatim>\<open>format_type\<close>, with the labels of the type in the order of the rows of
  \<^verbatim>\<open>pg_enum\<close>, which are the labels of the ordinal order in some order.
\<close>

lemma left_join_member:
  "(t, Some n) \<in> set (left_join conn) \<longleftrightarrow>
     t \<in> set (pg_type_rows conn) \<and> n \<in> set (pg_namespace_rows conn) \<and> nsp_oid n = typnamespace t"
proof -
  define f where "f = (\<lambda>t :: pg_type.
       (let ns = filter (\<lambda>n. nsp_oid n = typnamespace t) (pg_namespace_rows conn)
        in if ns = [] then [(t, None)] else map (\<lambda>n. (t, Some n)) ns))"
  have f: "(t, Some n) \<in> set (f t') \<longleftrightarrow>
      t' = t \<and> n \<in> set (pg_namespace_rows conn) \<and> nsp_oid n = typnamespace t" for t'
  proof (cases "filter (\<lambda>n. nsp_oid n = typnamespace t') (pg_namespace_rows conn) = []")
    case True
    then have "\<forall>m \<in> set (pg_namespace_rows conn). nsp_oid m \<noteq> typnamespace t'"
      by (simp add: filter_empty_conv)
    with True show ?thesis by (auto simp: f_def)
  next
    case False
    then show ?thesis by (auto simp: f_def Let_def)
  qed
  have "left_join conn = concat (map f (pg_type_rows conn))"
    by (simp add: left_join_def f_def)
  then have "(t, Some n) \<in> set (left_join conn) \<longleftrightarrow> (\<exists>t' \<in> set (pg_type_rows conn). (t, Some n) \<in> set (f t'))"
    by simp
  then show ?thesis unfolding f by blast
qed

lemma where_clause_iff:
  "where_clause schema r \<longleftrightarrow>
     (\<exists>t n. r = (t, Some n) \<and> typtype t = CHR ''e'' \<and> nspname n = schema)"
  by (cases r; cases "snd r") (auto simp: where_clause_def)

lemma execute_sql_names:
  "fst ` set (execute_sql conn schema) =
     {format_type conn (typ_oid t) |t n.
        t \<in> set (pg_type_rows conn) \<and> typtype t = CHR ''e'' \<and>
        n \<in> set (pg_namespace_rows conn) \<and> nsp_oid n = typnamespace t \<and> nspname n = schema}"
  (is "?L = ?R")
proof (intro set_eqI iffI)
  fix k assume "k \<in> ?L"
  then obtain r where r: "r \<in> set (left_join conn)" "where_clause schema r"
      "k = format_type conn (typ_oid (fst r))"
    by (auto simp: execute_sql_def)
  from r(2) obtain t n where tn: "r = (t, Some n)" "typtype t = CHR ''e''" "nspname n = schema"
    unfolding where_clause_iff by blast
  with r(1) have "t \<in> set (pg_type_rows conn)" "n \<in> set (pg_namespace_rows conn)"
      "nsp_oid n = typnamespace t"
    by (simp_all add: left_join_member)
  with tn r(3) show "k \<in> ?R" by auto
next
  fix k assume "k \<in> ?R"
  then obtain t n where tn: "k = format_type conn (typ_oid t)" "t \<in> set (pg_type_rows conn)"
      "typtype t = CHR ''e''" "n \<in> set (pg_namespace_rows conn)" "nsp_oid n = typnamespace t"
      "nspname n = schema"
    by blast
  then have "(t, Some n) \<in> set (left_join conn)" "where_clause schema (t, Some n)"
    by (simp_all add: left_join_member where_clause_iff)
  then have "(format_type conn (typ_oid t), enum_labels conn (typ_oid t)) \<in> set (execute_sql conn schema)"
    by (force simp: execute_sql_def)
  with tn(1) show "k \<in> ?L" by force
qed

lemma get_defined_enums_names:
  "fst ` set (get_defined_enums conn schema) =
     {format_type conn (typ_oid t) |t n.
        t \<in> set (pg_type_rows conn) \<and> typtype t = CHR ''e'' \<and>
        n \<in> set (pg_namespace_rows conn) \<and> nsp_oid n = typnamespace t \<and> nspname n = schema}"
  unfolding get_defined_enums_def dict_comprehension_keys by (rule execute_sql_names)

lemma enum_labels_same_labels: "set (enum_labels conn oid) = set (ordinal_labels conn oid)"
  by (simp add: enum_labels_def ordinal_labels_def)

section \<open>The readers: claims\<close>

text \<open>
  C1, as amended. The claim says that two declared column types of one name with different
  values make the reader fail. \<^verbatim>\<open>get_declared_enums\<close> has no such check. When two recorded
  column types share a name and differ in their values, the returned mapping has exactly
  one entry for the name; it holds the values of the type of that name that the iteration
  of the set \<^verbatim>\<open>types\<close> visits last, and the values of one of the two types are not in the
  mapping.
\<close>

theorem get_declared_enums_keeps_last_visited:
  assumes "t1 \<in> enum_types schema default_schema md"
    and "t2 \<in> enum_types schema default_schema md"
    and "type_name t1 = type_name t2"
    and "get_enum_values t1 dialect \<noteq> get_enum_values t2 dialect"
  shows "filter (\<lambda>t. type_name t = type_name t1) (visited_types slot md schema default_schema) \<noteq> [] \<and>
     map_of (enum_definitions (get_declared_enums slot md schema default_schema dialect))
       (type_name t1) =
       Some (get_enum_values
         (last (filter (\<lambda>t. type_name t = type_name t1)
            (visited_types slot md schema default_schema))) dialect) \<and>
     length (filter (\<lambda>e. fst e = type_name t1)
       (enum_definitions (get_declared_enums slot md schema default_schema dialect))) = 1 \<and>
     (\<exists>t \<in> {t1, t2}.
        map_of (enum_definitions (get_declared_enums slot md schema default_schema dialect))
          (type_name t1) \<noteq> Some (get_enum_values t dialect))"
proof -
  let ?d = "enum_definitions (get_declared_enums slot md schema default_schema dialect)"
  let ?ts = "filter (\<lambda>t. type_name t = type_name t1) (visited_types slot md schema default_schema)"
  from assms(1) have "t1 \<in> set ?ts"
    by (simp add: set_visited_types)
  then have ne: "?ts \<noteq> []" by (metis empty_iff list.set(1))
  with enum_definitions_last_visited [of slot md schema default_schema dialect "type_name t1"]
  have v: "map_of ?d (type_name t1) = Some (get_enum_values (last ?ts) dialect)"
    by simp
  from assms(1) have "type_name t1 \<in> fst ` set ?d"
    by (simp add: enum_definitions_keys)
  with enum_definitions_distinct have one: "length (filter (\<lambda>e. fst e = type_name t1) ?d) = 1"
    by (rule one_entry)
  have "map_of ?d (type_name t1) \<noteq> Some (get_enum_values t1 dialect) \<or>
      map_of ?d (type_name t1) \<noteq> Some (get_enum_values t2 dialect)"
    using assms(4) by auto
  then have "\<exists>t \<in> {t1, t2}. map_of ?d (type_name t1) \<noteq> Some (get_enum_values t dialect)"
    by auto
  with ne v one show ?thesis by blast
qed

theorem get_declared_enums_keeps_last_visited_witness:
  "plain_enum None ''user_status'' [''active'', ''passive'']
     \<in> enum_types ''public'' ''public'' conflicting_metadata \<and>
   plain_enum None ''user_status'' [''active'']
     \<in> enum_types ''public'' ''public'' conflicting_metadata \<and>
   type_name (plain_enum None ''user_status'' [''active'', ''passive'']) =
     type_name (plain_enum None ''user_status'' [''active'']) \<and>
   get_enum_values (plain_enum None ''user_status'' [''active'', ''passive'']) () \<noteq>
     get_enum_values (plain_enum None ''user_status'' [''active'']) () \<and>
   visited_types by_length conflicting_metadata ''public'' ''public'' =
     [plain_enum None ''user_status'' [''active''],
      plain_enum None ''user_status'' [''active'', ''passive'']] \<and>
   map_of (enum_definitions
     (get_declared_enums by_length conflicting_metadata ''public'' ''public'' ()))
     ''user_status'' = Some [''active'', ''passive''] \<and>
   map_of (enum_definitions
     (get_declared_enums by_length conflicting_metadata ''public'' ''public'' ()))
     ''user_status'' \<noteq> Some (get_enum_values (plain_enum None ''user_status'' [''active'']) ())"
proof -
  let ?a = "plain_enum None ''user_status'' [''active'', ''passive'']"
  let ?b = "plain_enum None ''user_status'' [''active'']"
  have a: "?a \<in> enum_types ''public'' ''public'' conflicting_metadata"
    and b: "?b \<in> enum_types ''public'' ''public'' conflicting_metadata"
    by (simp_all add: conflicting_metadata_types)
  have n: "type_name ?a = type_name ?b"
    by (simp add: plain_enum_def)
  have v: "get_enum_values ?a () \<noteq> get_enum_values ?b ()"
    by (simp add: plain_enum_def get_enum_values_def)
  have r: "map_of (enum_definitions
     (get_declared_enums by_length conflicting_metadata ''public'' ''public'' ()))
     ''user_status'' = Some [''active'', ''passive'']"
    by (simp add: conflicting_metadata_result)
  have nb: "Some [''active'', ''passive''] \<noteq> Some (get_enum_values ?b ())"
    by (simp add: plain_enum_def get_enum_values_def)
  from get_declared_enums_keeps_last_visited [OF a b n v, of by_length] a b n v r nb
    conflicting_metadata_visited
  show ?thesis
    by simp
qed

text \<open>
  C1 as stated fails: the two recorded columns of \<open>conflicting_metadata\<close> have types named
  \<^verbatim>\<open>user_status\<close> with different values, and the reader returns a mapping that keeps one
  of the two tuples.
\<close>

theorem get_declared_enums_conflict_counterexample:
  "map (\<lambda>c. (type_name (col_type c), enums (col_type c)))
     (filter (enum_column ''public'' ''public'') (concat (map tbl_columns conflicting_metadata))) =
     [(''user_status'', [''active'', ''passive'']), (''user_status'', [''active''])] \<and>
   get_declared_enums by_length conflicting_metadata ''public'' ''public'' () =
   \<lparr>enum_definitions = [(''user_status'', [''active'', ''passive''])],
    table_definitions = Some
      [\<lparr>table_name = ''users'', column_name = ''status'', enum_name = ''user_status''\<rparr>,
       \<lparr>table_name = ''users'', column_name = ''old_status'', enum_name = ''user_status''\<rparr>]\<rparr>"
  by (simp add: reader_defs example_defs enum_column_def)

text \<open>
  C2 fails on the code: the labels come in the order of the rows of \<^verbatim>\<open>pg_enum\<close>, since the
  subquery has no \<^verbatim>\<open>ORDER BY enumsortorder\<close>. After a value was added before another one
  the rows are not in ordinal order, and the tuple \<^verbatim>\<open>get_defined_enums\<close> returns is not the
  ordinal order of the labels.
\<close>

theorem get_defined_enums_scan_order:
  "get_defined_enums altered_catalog ''public'' = [(''status'', [''a'', ''c'', ''b''])] \<and>
   ordinal_labels altered_catalog 1 = [''a'', ''b'', ''c'']"
  by (simp add: get_defined_enums_def dict_comprehension_def execute_sql_def where_clause_def
      left_join_def enum_labels_def ordinal_labels_def altered_catalog_def)

text \<open>
  C3: for a decorator-wrapped enum type, \<^verbatim>\<open>get_enum_values\<close> returns the declared values, each
  sent through \<^verbatim>\<open>impl.result_processor\<close> and then \<^verbatim>\<open>process_bind_param\<close>; for a plain
  \<^verbatim>\<open>Enum\<close> it returns the declared values unchanged.
\<close>

theorem get_enum_values_bind_pipeline:
  "(is_type_decorator t \<and> impl_is_enum t \<longrightarrow>
      get_enum_values t dialect =
        map (\<lambda>v. process_bind_param t (impl_result_processor t dialect v) dialect) (enums t)) \<and>
   (is_enum t \<and> \<not> is_type_decorator t \<longrightarrow> get_enum_values t dialect = enums t)"
proof (intro conjI impI)
  assume "is_type_decorator t \<and> impl_is_enum t"
  then have "value_processor t dialect =
      (\<lambda>v. process_bind_param t (impl_result_processor t dialect v) dialect)"
    by (simp add: value_processor_def fun_eq_iff)
  then show "get_enum_values t dialect =
      map (\<lambda>v. process_bind_param t (impl_result_processor t dialect v) dialect) (enums t)"
    by (simp add: get_enum_values_def)
next
  assume "is_enum t \<and> \<not> is_type_decorator t"
  then have "value_processor t dialect = (\<lambda>v. v)"
    by (simp add: value_processor_def fun_eq_iff)
  then show "get_enum_values t dialect = enums t"
    by (simp add: get_enum_values_def)
qed

theorem get_enum_values_bind_pipeline_witness:
  "is_type_decorator (decorated_enum None ''user_status'' [''active'', ''passive'']) \<and>
   impl_is_enum (decorated_enum None ''user_status'' [''active'', ''passive'']) \<and>
   get_enum_values (decorated_enum None ''user_status'' [''active'', ''passive'']) () =
     [''active_db'', ''passive_db''] \<and>
   is_enum (plain_enum None ''user_status'' [''active'', ''passive'']) \<and>
   \<not> is_type_decorator (plain_enum None ''user_status'' [''active'', ''passive'']) \<and>
   get_enum_values (plain_enum None ''user_status'' [''active'', ''passive'']) () =
     [''active'', ''passive'']"
  using get_enum_values_bind_pipeline [of "decorated_enum None ''user_status'' [''active'', ''passive'']" "()"]
    get_enum_values_bind_pipeline [of "plain_enum None ''user_status'' [''active'', ''passive'']" "()"]
  by (simp add: decorated_enum_def plain_enum_def)

text \<open>
  C4, as amended. A column whose type has no attribute \<^verbatim>\<open>schema\<close> contributes nothing: the
  result is that of the metadata without those columns. Every recorded usage is that of a
  column whose resident schema is the inspected schema, where the resident schema is the
  schema attribute, or the default schema when the attribute is \<^verbatim>\<open>None\<close> or the empty
  string (\<open>schema_or_default\<close>).
\<close>

theorem get_declared_enums_schema_filter:
  "get_declared_enums slot (map drop_schemaless md) schema default_schema dialect =
     get_declared_enums slot md schema default_schema dialect \<and>
   (\<exists>tds. table_definitions (get_declared_enums slot md schema default_schema dialect) = Some tds \<and>
      (\<forall>u \<in> set tds. \<exists>t \<in> set md. \<exists>c \<in> set (tbl_columns t).
         u = usage t c \<and>
         (\<exists>s. schema_attr (col_type c) = Some s \<and> schema_or_default s default_schema = schema)))"
proof
  show "get_declared_enums slot (map drop_schemaless md) schema default_schema dialect =
     get_declared_enums slot md schema default_schema dialect"
    by (simp add: get_declared_enums_def scan_metadata_drop_schemaless)
next
  have "\<forall>u \<in> set (enum_usages schema default_schema md). \<exists>t \<in> set md. \<exists>c \<in> set (tbl_columns t).
         u = usage t c \<and>
         (\<exists>s. schema_attr (col_type c) = Some s \<and> schema_or_default s default_schema = schema)"
    by (auto simp: enum_usages_def enum_column_def split: option.splits)
  then show "\<exists>tds. table_definitions (get_declared_enums slot md schema default_schema dialect) = Some tds \<and>
      (\<forall>u \<in> set tds. \<exists>t \<in> set md. \<exists>c \<in> set (tbl_columns t).
         u = usage t c \<and>
         (\<exists>s. schema_attr (col_type c) = Some s \<and> schema_or_default s default_schema = schema))"
    by (simp add: table_definitions_eq)
qed

theorem get_declared_enums_schema_filter_witness:
  "get_declared_enums by_length (map drop_schemaless conflicting_metadata) ''public'' ''public'' () =
     get_declared_enums by_length conflicting_metadata ''public'' ''public'' () \<and>
   map tbl_columns (map drop_schemaless conflicting_metadata) =
     [[\<lparr>col_name = ''status'',
        col_type = plain_enum None ''user_status'' [''active'', ''passive'']\<rparr>,
       \<lparr>col_name = ''old_status'',
        col_type = plain_enum None ''user_status'' [''active'']\<rparr>]] \<and>
   table_definitions (get_declared_enums by_length conflicting_metadata ''public'' ''public'' ()) =
     Some [usage (hd conflicting_metadata) (tbl_columns (hd conflicting_metadata) ! 1),
           usage (hd conflicting_metadata) (tbl_columns (hd conflicting_metadata) ! 2)] \<and>
   schema_attr (col_type (tbl_columns (hd conflicting_metadata) ! 1)) = Some None \<and>
   schema_or_default None ''public'' = ''public''"
  using get_declared_enums_schema_filter [of by_length conflicting_metadata "''public''" "''public''" "()"]
  by (simp add: conflicting_metadata_result)
     (simp add: example_defs drop_schemaless_def usage_def schema_or_default_def)

text \<open>
  C4 as stated fails for the empty string: a type declared with \<^verbatim>\<open>schema=''\<close> is recorded
  for the schema \<^verbatim>\<open>public\<close> when that is the default schema, although its schema attribute
  is not \<^verbatim>\<open>None\<close> and differs from \<^verbatim>\<open>public\<close>.
\<close>

theorem get_declared_enums_empty_schema_counterexample:
  "table_definitions (get_declared_enums by_length empty_schema_metadata ''public'' ''public'' ()) =
     Some [\<lparr>table_name = ''users'', column_name = ''status'', enum_name = ''user_status''\<rparr>] \<and>
   map (\<lambda>c. schema_attr (col_type c)) (concat (map tbl_columns empty_schema_metadata)) =
     [Some (Some [])] \<and>
   claimed_resident_schema (Some []) ''public'' \<noteq> ''public''"
  by (simp add: reader_defs example_defs claimed_resident_schema_def)

text \<open>
  C10: in the result of \<^verbatim>\<open>get_declared_enums\<close>, the \<open>enum_name\<close> of every record of
  \<open>table_definitions\<close> is a key of \<open>enum_definitions\<close>.
\<close>

theorem get_declared_enums_usages_are_keys:
  "\<exists>tds. table_definitions (get_declared_enums slot md schema default_schema dialect) = Some tds \<and>
     (\<forall>u \<in> set tds.
        enum_name u \<in> fst ` set (enum_definitions
          (get_declared_enums slot md schema default_schema dialect)))"
  by (auto simp: table_definitions_eq enum_definitions_keys enum_usages_def enum_types_def usage_def)

theorem get_declared_enums_usages_are_keys_witness:
  "table_definitions (get_declared_enums by_length conflicting_metadata ''public'' ''public'' ()) =
     Some [\<lparr>table_name = ''users'', column_name = ''status'', enum_name = ''user_status''\<rparr>,
           \<lparr>table_name = ''users'', column_name = ''old_status'', enum_name = ''user_status''\<rparr>] \<and>
   ''user_status'' \<in> fst ` set (enum_definitions
      (get_declared_enums by_length conflicting_metadata ''public'' ''public'' ()))"
  using get_declared_enums_usages_are_keys [of by_length conflicting_metadata "''public''" "''public''" "()"]
  by (simp add: conflicting_metadata_result)

section \<open>Facts about the engine\<close>

lemma enum_names_iff: "n \<in> set (enum_names d) \<longleftrightarrow> map_of d n \<noteq> None"
  by (simp add: enum_names_def map_of_eq_None_iff)

lemma distinct_enum_names: "distinct (enum_names d)"
  by (simp add: enum_names_def)

lemma split_distinct:
  assumes "distinct ns" and "n \<in> set ns"
  shows "\<exists>ns1 ns2. ns = ns1 @ n # ns2 \<and> n \<notin> set ns1 \<and> n \<notin> set ns2"
proof -
  from assms(2) obtain ns1 ns2 where "ns = ns1 @ n # ns2"
    by (auto dest: split_list)
  with assms(1) show ?thesis by auto
qed

lemma create_new_enums_member:
  "x \<in> set (create_new_enums schema live declared) \<longleftrightarrow>
     (\<exists>n vs. x = CreateEnum n schema vs \<and> map_of live n = None \<and> map_of declared n = Some vs)"
proof -
  let ?g = "\<lambda>n. (case (map_of live n, map_of declared n) of
          (None, Some vs) \<Rightarrow> [CreateEnum n schema vs] | _ \<Rightarrow> [])"
  have g: "x \<in> set (?g n) \<longleftrightarrow>
      (\<exists>vs. x = CreateEnum n schema vs \<and> map_of live n = None \<and> map_of declared n = Some vs)" for n
    by (cases "map_of live n"; cases "map_of declared n") auto
  have mem: "n \<in> set (enum_names declared)" if "x \<in> set (?g n)" for n
    using that unfolding g enum_names_iff by auto
  have "x \<in> set (create_new_enums schema live declared) \<longleftrightarrow>
      (\<exists>n \<in> set (enum_names declared). x \<in> set (?g n))"
    by (simp add: create_new_enums_def)
  also have "\<dots> \<longleftrightarrow> (\<exists>n. x \<in> set (?g n))"
    using mem by blast
  finally show ?thesis unfolding g by blast
qed

lemma drop_unused_enums_member:
  "x \<in> set (drop_unused_enums schema live declared) \<longleftrightarrow>
     (\<exists>n vs. x = DropEnum n schema vs \<and> map_of live n = Some vs \<and> map_of declared n = None)"
proof -
  let ?g = "\<lambda>n. (case (map_of live n, map_of declared n) of
          (Some vs, None) \<Rightarrow> [DropEnum n schema vs] | _ \<Rightarrow> [])"
  have g: "x \<in> set (?g n) \<longleftrightarrow>
      (\<exists>vs. x = DropEnum n schema vs \<and> map_of live n = Some vs \<and> map_of declared n = None)" for n
    by (cases "map_of live n"; cases "map_of declared n") auto
  have mem: "n \<in> set (enum_names live)" if "x \<in> set (?g n)" for n
    using that unfolding g enum_names_iff by auto
  have "x \<in> set (drop_unused_enums schema live declared) \<longleftrightarrow>
      (\<exists>n \<in> set (enum_names live). x \<in> set (?g n))"
    by (simp add: drop_unused_enums_def)
  also have "\<dots> \<longleftrightarrow> (\<exists>n. x \<in> set (?g n))"
    using mem by blast
  finally show ?thesis unfolding g by blast
qed

lemma sync_changed_enums_member:
  "x \<in> set (sync_changed_enums reorder schema live declared) \<longleftrightarrow>
     (\<exists>n lv dv. map_of live n = Some lv \<and> map_of declared n = Some dv \<and>
        x \<in> set (value_level_diff reorder n schema lv dv))"
proof -
  let ?g = "\<lambda>n. (case (map_of live n, map_of declared n) of
          (Some lv, Some dv) \<Rightarrow> value_level_diff reorder n schema lv dv | _ \<Rightarrow> [])"
  have g: "x \<in> set (?g n) \<longleftrightarrow>
      (\<exists>lv dv. map_of live n = Some lv \<and> map_of declared n = Some dv \<and>
        x \<in> set (value_level_diff reorder n schema lv dv))" for n
    by (cases "map_of live n"; cases "map_of declared n") auto
  have mem: "n \<in> set (enum_names declared)" if "x \<in> set (?g n)" for n
    using that unfolding g enum_names_iff by auto
  have "x \<in> set (sync_changed_enums reorder schema live declared) \<longleftrightarrow>
      (\<exists>n \<in> set (enum_names declared). x \<in> set (?g n))"
    by (simp add: sync_changed_enums_def)
  also have "\<dots> \<longleftrightarrow> (\<exists>n. x \<in> set (?g n))"
    using mem by blast
  finally show ?thesis unfolding g by blast
qed

lemma add_new_values_member:
  "x \<in> set (add_new_values n schema lv prev vs) \<Longrightarrow> \<exists>v p. x = AlterEnumAddValue n schema v p"
  by (induction vs arbitrary: prev) (auto split: if_splits)

lemma alter_op_enum: "op_enum (alter_op n schema st) = n"
  by (cases st) simp_all

lemma value_level_diff_enum:
  "x \<in> set (value_level_diff reorder n schema lv dv) \<Longrightarrow> op_enum x = n"
  by (auto simp: value_level_diff_def alter_op_enum dest: add_new_values_member split: if_splits)

lemma is_create_enum: "is_create n (EnumOp x) \<Longrightarrow> op_enum x = n"
  by (cases x) simp_all

lemma is_drop_enum: "is_drop n (EnumOp x) \<Longrightarrow> op_enum x = n"
  by (cases x) simp_all

lemma is_value_drop_enum: "is_value_drop n (EnumOp x) \<Longrightarrow> op_enum x = n"
  by (cases x) simp_all

lemma alter_op_not_create: "\<not> is_create n (EnumOp (alter_op m schema st))"
  by (cases st) simp_all

lemma alter_op_not_drop: "\<not> is_drop n (EnumOp (alter_op m schema st))"
  by (cases st) simp_all

lemma concat_map_split:
  assumes "distinct ns" and "E \<in> set ns"
    and key: "\<And>n x. x \<in> set (g n) \<Longrightarrow> op_enum x = n"
  shows "\<exists>pre post. concat (map g ns) = pre @ g E @ post \<and>
           (\<forall>x \<in> set (pre @ post). op_enum x \<noteq> E)"
proof -
  from split_distinct [OF assms(1,2)] obtain ns1 ns2
    where ns: "ns = ns1 @ E # ns2" "E \<notin> set ns1" "E \<notin> set ns2"
    by blast
  have other: "op_enum x \<noteq> E" if "E \<notin> set ms" "x \<in> set (concat (map g ms))" for ms x
  proof -
    from that(2) obtain n where n: "n \<in> set ms" "x \<in> set (g n)" by auto
    from key [OF n(2)] n(1) that(1) show ?thesis by auto
  qed
  have eq: "concat (map g ns) = concat (map g ns1) @ g E @ concat (map g ns2)"
    by (simp add: ns(1))
  have "\<forall>x \<in> set (concat (map g ns1) @ concat (map g ns2)). op_enum x \<noteq> E"
    using other [OF ns(2)] other [OF ns(3)] by auto
  with eq show ?thesis by blast
qed

lemma create_new_enums_split:
  assumes "map_of live E = None" and "map_of declared E = Some vs"
  shows "\<exists>pre post. create_new_enums schema live declared = pre @ [CreateEnum E schema vs] @ post \<and>
           (\<forall>x \<in> set (pre @ post). op_enum x \<noteq> E)"
proof -
  define g where "g = (\<lambda>n. (case (map_of live n, map_of declared n) of
          (None, Some vs) \<Rightarrow> [CreateEnum n schema vs] | _ \<Rightarrow> []))"
  have key: "op_enum x = n" if "x \<in> set (g n)" for x n
    using that unfolding g_def by (cases "map_of live n"; cases "map_of declared n") auto
  have E: "E \<in> set (enum_names declared)"
    using assms(2) by (simp add: enum_names_iff)
  have gE: "g E = [CreateEnum E schema vs]"
    using assms by (simp add: g_def)
  have "create_new_enums schema live declared = concat (map g (enum_names declared))"
    by (simp add: create_new_enums_def g_def)
  with concat_map_split [of "enum_names declared" E g, OF distinct_enum_names E key] gE
  show ?thesis by simp
qed

lemma drop_unused_enums_split:
  assumes "map_of live E = Some vs" and "map_of declared E = None"
  shows "\<exists>pre post. drop_unused_enums schema live declared = pre @ [DropEnum E schema vs] @ post \<and>
           (\<forall>x \<in> set (pre @ post). op_enum x \<noteq> E)"
proof -
  define g where "g = (\<lambda>n. (case (map_of live n, map_of declared n) of
          (Some vs, None) \<Rightarrow> [DropEnum n schema vs] | _ \<Rightarrow> []))"
  have key: "op_enum x = n" if "x \<in> set (g n)" for x n
    using that unfolding g_def by (cases "map_of live n"; cases "map_of declared n") auto
  have E: "E \<in> set (enum_names live)"
    using assms(1) by (simp add: enum_names_iff)
  have gE: "g E = [DropEnum E schema vs]"
    using assms by (simp add: g_def)
  have "drop_unused_enums schema live declared = concat (map g (enum_names live))"
    by (simp add: drop_unused_enums_def g_def)
  with concat_map_split [of "enum_names live" E g, OF distinct_enum_names E key] gE
  show ?thesis by simp
qed

lemma sync_changed_enums_split:
  assumes "map_of live E = Some lv" and "map_of declared E = Some dv"
  shows "\<exists>pre post. sync_changed_enums reorder schema live declared =
           pre @ value_level_diff reorder E schema lv dv @ post \<and>
           (\<forall>x \<in> set (pre @ post). op_enum x \<noteq> E)"
proof -
  define g where "g = (\<lambda>n. (case (map_of live n, map_of declared n) of
          (Some lv, Some dv) \<Rightarrow> value_level_diff reorder n schema lv dv | _ \<Rightarrow> []))"
  have key: "op_enum x = n" if "x \<in> set (g n)" for x n
    using that unfolding g_def
    by (cases "map_of live n"; cases "map_of declared n") (auto dest: value_level_diff_enum)
  have E: "E \<in> set (enum_names declared)"
    using assms(2) by (simp add: enum_names_iff)
  have gE: "g E = value_level_diff reorder E schema lv dv"
    using assms by (simp add: g_def)
  have "sync_changed_enums reorder schema live declared = concat (map g (enum_names declared))"
    by (simp add: sync_changed_enums_def g_def)
  with concat_map_split [of "enum_names declared" E g, OF distinct_enum_names E key] gE
  show ?thesis by simp
qed

lemma create_new_enums_other:
  assumes "map_of live E \<noteq> None \<or> map_of declared E = None"
    and "x \<in> set (create_new_enums schema live declared)"
  shows "op_enum x \<noteq> E"
proof -
  from assms(2) obtain n vs where "x = CreateEnum n schema vs" "map_of live n = None"
      "map_of declared n = Some vs"
    unfolding create_new_enums_member by blast
  with assms(1) show ?thesis by auto
qed

lemma drop_unused_enums_other:
  assumes "map_of live E = None \<or> map_of declared E \<noteq> None"
    and "x \<in> set (drop_unused_enums schema live declared)"
  shows "op_enum x \<noteq> E"
proof -
  from assms(2) obtain n vs where "x = DropEnum n schema vs" "map_of live n = Some vs"
      "map_of declared n = None"
    unfolding drop_unused_enums_member by blast
  with assms(1) show ?thesis by auto
qed

lemma sync_changed_enums_other:
  assumes "map_of live E = None \<or> map_of declared E = None"
    and "x \<in> set (sync_changed_enums reorder schema live declared)"
  shows "op_enum x \<noteq> E"
proof -
  from assms(2) obtain n lv dv where n: "map_of live n = Some lv" "map_of declared n = Some dv"
      "x \<in> set (value_level_diff reorder n schema lv dv)"
    unfolding sync_changed_enums_member by blast
  from value_level_diff_enum [OF n(3)] n(1,2) assms(1) show ?thesis by auto
qed

lemmas engine_defs = diff_def create_new_enums_def drop_unused_enums_def sync_changed_enums_def
  value_level_diff_def enum_names_def snapshot_def no_reorder_def

lemma not_create_other: "op_enum x \<noteq> E \<Longrightarrow> \<not> is_create E (EnumOp x)"
  using is_create_enum by blast

lemma not_drop_other: "op_enum x \<noteq> E \<Longrightarrow> \<not> is_drop E (EnumOp x)"
  using is_drop_enum by blast

lemma not_value_drop_other: "op_enum x \<noteq> E \<Longrightarrow> \<not> is_value_drop E (EnumOp x)"
  using is_value_drop_enum by blast

lemma diff_member:
  "x \<in> set (diff reorder schema live declared batch) \<longleftrightarrow>
     (\<exists>y. x = EnumOp y \<and>
        (y \<in> set (create_new_enums schema (enum_definitions live) (enum_definitions declared)) \<or>
         y \<in> set (sync_changed_enums reorder schema (enum_definitions live) (enum_definitions declared)) \<or>
         y \<in> set (drop_unused_enums schema (enum_definitions live) (enum_definitions declared)))) \<or>
     (\<exists>c \<in> set batch. x = ColumnOp c)"
  by (auto simp: diff_def)

lemma value_level_diff_additions:
  assumes "lv \<noteq> dv" and "set lv \<subseteq> set dv"
    and "x \<in> set (value_level_diff reorder n schema lv dv)"
  shows "\<not> is_create E (EnumOp x) \<and> \<not> is_drop E (EnumOp x)"
proof (cases "set lv = set dv")
  case True
  with assms obtain st where "x = alter_op n schema st"
    by (auto simp: value_level_diff_def)
  then show ?thesis by (simp add: alter_op_not_create alter_op_not_drop)
next
  case False
  with assms have "x \<in> set (add_new_values n schema lv None dv)"
    by (simp add: value_level_diff_def)
  then obtain v p where "x = AlterEnumAddValue n schema v p"
    using add_new_values_member by blast
  then show ?thesis by simp
qed

lemma value_level_diff_removal:
  assumes "set dv \<subset> set lv"
  shows "value_level_diff reorder n schema lv dv = [DropEnum n schema lv, CreateEnum n schema dv]"
proof -
  from assms have "lv \<noteq> dv" "set lv \<noteq> set dv" "\<not> set lv \<subseteq> set dv" by auto
  then show ?thesis by (simp add: value_level_diff_def)
qed

lemma no_member_Nil: "(\<And>x. x \<notin> set xs) \<Longrightarrow> xs = []"
  by (cases xs) auto

text \<open>The four scenarios of section 8 of the specification, with no reordering steps.\<close>

lemma scenario_1:
  "diff no_reorder ''public'' (snapshot [])
     (snapshot [(''user_status'', [''active'', ''passive''])]) [add_status_column] =
     [EnumOp (CreateEnum ''user_status'' ''public'' [''active'', ''passive'']),
      ColumnOp add_status_column]"
  by (simp add: engine_defs set_eq_subset)

lemma scenario_2:
  "diff no_reorder ''public'' (snapshot [(''user_status'', [''active'', ''passive''])])
     (snapshot []) [remove_status_column] =
     [ColumnOp remove_status_column,
      EnumOp (DropEnum ''user_status'' ''public'' [''active'', ''passive''])]"
  by (simp add: engine_defs set_eq_subset)

lemma scenario_3:
  "diff no_reorder ''public'' (snapshot [(''status'', [''a'', ''b''])])
     (snapshot [(''status'', [''a'', ''b'', ''c''])]) [] =
     [EnumOp (AlterEnumAddValue ''status'' ''public'' ''c'' (After ''b''))]"
  by (simp add: engine_defs set_eq_subset)

lemma scenario_4:
  "diff no_reorder ''public'' (snapshot [(''status'', [''a'', ''b'', ''c''])])
     (snapshot [(''status'', [''a'', ''c''])]) [] =
     [EnumOp (DropEnum ''status'' ''public'' [''a'', ''b'', ''c'']),
      EnumOp (CreateEnum ''status'' ''public'' [''a'', ''c''])]"
  by (simp add: engine_defs set_eq_subset)

text \<open>
  When no live value of an enum is removed, its value-level diff has neither a create nor
  a drop of the enum.
\<close>

lemma diff_additions_keep_enum:
  assumes "map_of (enum_definitions live) E = Some lv"
    and "map_of (enum_definitions declared) E = Some dv"
    and "lv \<noteq> dv"
    and "set lv \<subseteq> set dv"
  shows "\<forall>x \<in> set (diff reorder schema live declared batch). \<not> is_create E x \<and> \<not> is_drop E x"
proof
  let ?l = "enum_definitions live" and ?d = "enum_definitions declared"
  fix x assume "x \<in> set (diff reorder schema live declared batch)"
  then consider
      y where "x = EnumOp y" "y \<in> set (create_new_enums schema ?l ?d)"
    | y where "x = EnumOp y" "y \<in> set (sync_changed_enums reorder schema ?l ?d)"
    | y where "x = EnumOp y" "y \<in> set (drop_unused_enums schema ?l ?d)"
    | c where "x = ColumnOp c"
    unfolding diff_member by blast
  then show "\<not> is_create E x \<and> \<not> is_drop E x"
  proof cases
    case 1
    with assms(1) create_new_enums_other [of ?l E ?d y] have "op_enum y \<noteq> E" by auto
    with 1 show ?thesis by (simp add: not_create_other not_drop_other)
  next
    case 2
    then obtain n lv' dv' where n: "map_of ?l n = Some lv'" "map_of ?d n = Some dv'"
        "y \<in> set (value_level_diff reorder n schema lv' dv')"
      unfolding sync_changed_enums_member by blast
    show ?thesis
    proof (cases "n = E")
      case True
      with n assms(1,2) have "y \<in> set (value_level_diff reorder E schema lv dv)" by simp
      from value_level_diff_additions [OF assms(3,4) this] 2 show ?thesis by simp
    next
      case False
      with value_level_diff_enum [OF n(3)] have "op_enum y \<noteq> E" by simp
      with 2 show ?thesis by (simp add: not_create_other not_drop_other)
    qed
  next
    case 3
    with assms(2) drop_unused_enums_other [of ?l E ?d y] have "op_enum y \<noteq> E" by auto
    with 3 show ?thesis by (simp add: not_create_other not_drop_other)
  next
    case 4
    then show ?thesis by simp
  qed
qed

section \<open>The engine: claims\<close>

text \<open>
  C5: for an enum \<open>E\<close> that only the declared side has, the output holds
  \<open>CreateEnum E\<close> with the declared values once, and no column operation that references
  \<open>E\<close> stands before it; for an enum that only the live side has, the output holds
  \<open>DropEnum E\<close> with the live values once, and no column operation that references \<open>E\<close>
  (a column drop among them) stands after it.
\<close>

theorem diff_creates_first_drops_last:
  "(map_of (enum_definitions declared) E = Some vs \<and> map_of (enum_definitions live) E = None \<longrightarrow>
      (\<exists>pre post.
         diff reorder schema live declared batch = pre @ [EnumOp (CreateEnum E schema vs)] @ post \<and>
         (\<forall>x \<in> set (pre @ post). \<not> is_create E x) \<and>
         (\<forall>x \<in> set pre. \<not> column_references E x))) \<and>
   (map_of (enum_definitions live) E = Some vs \<and> map_of (enum_definitions declared) E = None \<longrightarrow>
      (\<exists>pre post.
         diff reorder schema live declared batch = pre @ [EnumOp (DropEnum E schema vs)] @ post \<and>
         (\<forall>x \<in> set (pre @ post). \<not> is_drop E x) \<and>
         (\<forall>x \<in> set post. \<not> column_references E x)))"
proof (intro conjI impI)
  let ?l = "enum_definitions live" and ?d = "enum_definitions declared"
  assume a: "map_of ?d E = Some vs \<and> map_of ?l E = None"
  then obtain cpre cpost where
    c: "create_new_enums schema ?l ?d = cpre @ [CreateEnum E schema vs] @ cpost"
      "\<forall>x \<in> set (cpre @ cpost). op_enum x \<noteq> E"
    using create_new_enums_split [of ?l E ?d vs schema] by blast
  let ?pre = "map EnumOp cpre"
  let ?post = "map EnumOp cpost @ map EnumOp (sync_changed_enums reorder schema ?l ?d)
      @ map ColumnOp batch @ map EnumOp (drop_unused_enums schema ?l ?d)"
  have eq: "diff reorder schema live declared batch = ?pre @ [EnumOp (CreateEnum E schema vs)] @ ?post"
    by (simp add: diff_def c(1))
  have s: "\<forall>x \<in> set (sync_changed_enums reorder schema ?l ?d). op_enum x \<noteq> E"
    using a sync_changed_enums_other [of ?l E ?d] by blast
  have d: "\<forall>x \<in> set (drop_unused_enums schema ?l ?d). op_enum x \<noteq> E"
    using a drop_unused_enums_other [of ?l E ?d] by blast
  have no: "\<forall>x \<in> set (?pre @ ?post). \<not> is_create E x"
    using c(2) s d by (auto dest: is_create_enum)
  have col: "\<forall>x \<in> set ?pre. \<not> column_references E x"
    by auto
  from eq no col
  show "\<exists>pre post.
         diff reorder schema live declared batch = pre @ [EnumOp (CreateEnum E schema vs)] @ post \<and>
         (\<forall>x \<in> set (pre @ post). \<not> is_create E x) \<and>
         (\<forall>x \<in> set pre. \<not> column_references E x)"
    by blast
next
  let ?l = "enum_definitions live" and ?d = "enum_definitions declared"
  assume a: "map_of ?l E = Some vs \<and> map_of ?d E = None"
  then obtain dpre dpost where
    c: "drop_unused_enums schema ?l ?d = dpre @ [DropEnum E schema vs] @ dpost"
      "\<forall>x \<in> set (dpre @ dpost). op_enum x \<noteq> E"
    using drop_unused_enums_split [of ?l E vs ?d schema] by blast
  let ?pre = "map EnumOp (create_new_enums schema ?l ?d)
      @ map EnumOp (sync_changed_enums reorder schema ?l ?d)
      @ map ColumnOp batch @ map EnumOp dpre"
  let ?post = "map EnumOp dpost"
  have eq: "diff reorder schema live declared batch = ?pre @ [EnumOp (DropEnum E schema vs)] @ ?post"
    by (simp add: diff_def c(1))
  have s: "\<forall>x \<in> set (sync_changed_enums reorder schema ?l ?d). op_enum x \<noteq> E"
    using a sync_changed_enums_other [of ?l E ?d] by blast
  have d: "\<forall>x \<in> set (create_new_enums schema ?l ?d). op_enum x \<noteq> E"
    using a create_new_enums_other [of ?l E ?d] by blast
  have no: "\<forall>x \<in> set (?pre @ ?post). \<not> is_drop E x"
    using c(2) s d by (auto dest: is_drop_enum)
  have col: "\<forall>x \<in> set ?post. \<not> column_references E x"
    by auto
  from eq no col
  show "\<exists>pre post.
         diff reorder schema live declared batch = pre @ [EnumOp (DropEnum E schema vs)] @ post \<and>
         (\<forall>x \<in> set (pre @ post). \<not> is_drop E x) \<and>
         (\<forall>x \<in> set post. \<not> column_references E x)"
    by blast
qed

theorem diff_creates_first_drops_last_witness:
  "map_of (enum_definitions (snapshot [(''user_status'', [''active'', ''passive''])])) ''user_status'' =
     Some [''active'', ''passive''] \<and>
   map_of (enum_definitions (snapshot [])) ''user_status'' = None \<and>
   diff no_reorder ''public'' (snapshot [])
     (snapshot [(''user_status'', [''active'', ''passive''])]) [add_status_column] =
     [] @ [EnumOp (CreateEnum ''user_status'' ''public'' [''active'', ''passive''])]
        @ [ColumnOp add_status_column] \<and>
   column_references ''user_status'' (ColumnOp add_status_column) \<and>
   diff no_reorder ''public'' (snapshot [(''user_status'', [''active'', ''passive''])])
     (snapshot []) [remove_status_column] =
     [ColumnOp remove_status_column]
        @ [EnumOp (DropEnum ''user_status'' ''public'' [''active'', ''passive''])] @ [] \<and>
   column_references ''user_status'' (ColumnOp remove_status_column)"
proof -
  have h: "map_of (enum_definitions (snapshot [(''user_status'', [''active'', ''passive''])])) ''user_status'' =
     Some [''active'', ''passive''] \<and>
   map_of (enum_definitions (snapshot [])) ''user_status'' = None"
    by (simp add: snapshot_def)
  have c1: "column_references ''user_status'' (ColumnOp add_status_column)"
    by (simp add: add_status_column_def)
  have c2: "column_references ''user_status'' (ColumnOp remove_status_column)"
    by (simp add: remove_status_column_def)
  from diff_creates_first_drops_last [of "snapshot [(''user_status'', [''active'', ''passive''])]"
      "''user_status''" "[''active'', ''passive'']" "snapshot []" no_reorder "''public''"
      "[add_status_column]"]
    diff_creates_first_drops_last [of "snapshot []"
      "''user_status''" "[''active'', ''passive'']"
      "snapshot [(''user_status'', [''active'', ''passive''])]" no_reorder "''public''"
      "[remove_status_column]"] h c1 c2
  show ?thesis
    by (simp add: scenario_1 scenario_2)
qed

text \<open>
  C6: the diff of a snapshot with itself adds no operation: with no column operations the
  sequence is empty.
\<close>

theorem diff_no_drift:
  "diff reorder schema D D [] = [] \<and> diff reorder schema D D batch = map ColumnOp batch"
proof -
  let ?d = "enum_definitions D"
  have c: "create_new_enums schema ?d ?d = []"
  proof -
    have "x \<notin> set (create_new_enums schema ?d ?d)" for x
      unfolding create_new_enums_member by auto
    then show ?thesis by (rule no_member_Nil)
  qed
  have d: "drop_unused_enums schema ?d ?d = []"
  proof -
    have "x \<notin> set (drop_unused_enums schema ?d ?d)" for x
      unfolding drop_unused_enums_member by auto
    then show ?thesis by (rule no_member_Nil)
  qed
  have s: "sync_changed_enums reorder schema ?d ?d = []"
  proof -
    have "x \<notin> set (sync_changed_enums reorder schema ?d ?d)" for x
      unfolding sync_changed_enums_member by (auto simp: value_level_diff_def)
    then show ?thesis by (rule no_member_Nil)
  qed
  show ?thesis by (simp add: diff_def c d s)
qed

text \<open>
  C8: for an enum on both sides whose declared value set is a strict subset of the live
  one, the output holds the recreation pair, \<open>DropEnum\<close> with the live values and then
  \<open>CreateEnum\<close> with the declared values, and besides the pair no create, drop or value
  drop of that enum.
\<close>

theorem diff_removed_values_recreate:
  assumes "map_of (enum_definitions live) E = Some lv"
    and "map_of (enum_definitions declared) E = Some dv"
    and "set dv \<subset> set lv"
  shows "\<exists>pre post.
           diff reorder schema live declared batch =
             pre @ [EnumOp (DropEnum E schema lv), EnumOp (CreateEnum E schema dv)] @ post \<and>
           (\<forall>x \<in> set (pre @ post). \<not> is_create E x \<and> \<not> is_drop E x \<and> \<not> is_value_drop E x)"
proof -
  let ?l = "enum_definitions live" and ?d = "enum_definitions declared"
  from sync_changed_enums_split [OF assms(1,2), of reorder schema] obtain spre spost where
    s: "sync_changed_enums reorder schema ?l ?d =
          spre @ [DropEnum E schema lv, CreateEnum E schema dv] @ spost"
      "\<forall>x \<in> set (spre @ spost). op_enum x \<noteq> E"
    unfolding value_level_diff_removal [OF assms(3)] by blast
  let ?pre = "map EnumOp (create_new_enums schema ?l ?d) @ map EnumOp spre"
  let ?post = "map EnumOp spost @ map ColumnOp batch @ map EnumOp (drop_unused_enums schema ?l ?d)"
  have eq: "diff reorder schema live declared batch =
      ?pre @ [EnumOp (DropEnum E schema lv), EnumOp (CreateEnum E schema dv)] @ ?post"
    by (simp add: diff_def s(1))
  have c: "\<forall>x \<in> set (create_new_enums schema ?l ?d). op_enum x \<noteq> E"
    using assms(1) create_new_enums_other [of ?l E ?d] by auto
  have d: "\<forall>x \<in> set (drop_unused_enums schema ?l ?d). op_enum x \<noteq> E"
    using assms(2) drop_unused_enums_other [of ?l E ?d] by auto
  have "\<forall>x \<in> set (?pre @ ?post). \<not> is_create E x \<and> \<not> is_drop E x \<and> \<not> is_value_drop E x"
    using s(2) c d by (auto dest: is_create_enum is_drop_enum is_value_drop_enum)
  with eq show ?thesis by blast
qed

theorem diff_removed_values_recreate_witness:
  "map_of (enum_definitions (snapshot [(''status'', [''a'', ''b'', ''c''])])) ''status'' =
     Some [''a'', ''b'', ''c''] \<and>
   map_of (enum_definitions (snapshot [(''status'', [''a'', ''c''])])) ''status'' =
     Some [''a'', ''c''] \<and>
   set [''a'', ''c''] \<subset> set [''a'', ''b'', ''c''] \<and>
   diff no_reorder ''public'' (snapshot [(''status'', [''a'', ''b'', ''c''])])
     (snapshot [(''status'', [''a'', ''c''])]) [] =
     [] @ [EnumOp (DropEnum ''status'' ''public'' [''a'', ''b'', ''c'']),
           EnumOp (CreateEnum ''status'' ''public'' [''a'', ''c''])] @ []"
proof -
  have l: "map_of (enum_definitions (snapshot [(''status'', [''a'', ''b'', ''c''])])) ''status'' =
     Some [''a'', ''b'', ''c'']"
    by (simp add: snapshot_def)
  have d: "map_of (enum_definitions (snapshot [(''status'', [''a'', ''c''])])) ''status'' =
     Some [''a'', ''c'']"
    by (simp add: snapshot_def)
  have sub: "set [''a'', ''c''] \<subset> set [''a'', ''b'', ''c'']"
    by (simp add: psubset_eq set_eq_subset)
  from diff_removed_values_recreate [OF l d sub, of no_reorder "''public''" "[]"] l d sub
  show ?thesis
    by (simp add: scenario_4)
qed

end
